theory Spec2Isabelle
  imports Main "HOL-Library.Option_ord"
begin

section \<open>Strings: \<open>str.split()\<close> and \<open>" ".join\<close>\<close>

text \<open>
  Python strings are modelled as \<open>string\<close>, one \<open>char\<close> per code point below 256.
  \<open>isspace\<close> is \<open>str.isspace\<close> on that range: tab, line feed, vertical tab, form feed,
  carriage return, the four separators 0x1c..0x1f, space, 0x85 and 0xa0.
\<close>

definition isspace :: "char \<Rightarrow> bool" where
  "isspace c =
     (let n = (of_char c :: nat)
      in (9 \<le> n \<and> n \<le> 13) \<or> (28 \<le> n \<and> n \<le> 32) \<or> n = 133 \<or> n = 160)"

text \<open>
  \<open>s.split()\<close> without arguments: the maximal runs of non-whitespace characters, in order;
  leading, trailing and repeated whitespace produce no empty word.  \<open>split_from w s\<close> scans
  \<open>s\<close> with \<open>w\<close> the word collected so far.
\<close>

fun split_from :: "string \<Rightarrow> string \<Rightarrow> string list" where
  "split_from w [] = (if w = [] then [] else [w])"
| "split_from w (c # cs) =
     (if isspace c
      then (if w = [] then split_from [] cs else w # split_from [] cs)
      else split_from (w @ [c]) cs)"

definition split :: "string \<Rightarrow> string list" where
  "split s = split_from [] s"

text \<open>\<open>" ".join(xs)\<close>: the elements separated by one space.\<close>

fun join :: "string list \<Rightarrow> string" where
  "join [] = []"
| "join [x] = x"
| "join (x # y # ys) = x @ '' '' @ join (y # ys)"

section \<open>The chunker\<close>

text \<open>
  \<^verbatim>\<open>
  def chunk_text(text, chunk_size=200):
      sentences = sent_tokenize(text)
      chunks = []
      current_chunk = []
      current_length = 0
      for sentence in sentences:
          current_length += len(sentence.split())
          current_chunk.append(sentence)
          if current_length >= chunk_size:
              chunks.append(" ".join(current_chunk))
              current_chunk = []
              current_length = 0
      if current_chunk:
          chunks.append(" ".join(current_chunk))
      return chunks
  \<close>
  \<open>sent_tokenize\<close> is NLTK's sentence splitter, a library function: it is a parameter of
  the model.  The loop state is \<open>(chunks, current_chunk, current_length)\<close>.
\<close>

fun chunk_loop ::
  "int \<Rightarrow> string list \<Rightarrow> string list \<Rightarrow> string list \<Rightarrow> int \<Rightarrow> string list \<times> string list \<times> int"
where
  "chunk_loop chunk_size [] chunks current_chunk current_length =
     (chunks, current_chunk, current_length)"
| "chunk_loop chunk_size (sentence # sentences) chunks current_chunk current_length =
     (let current_length = current_length + int (length (split sentence));
          current_chunk = current_chunk @ [sentence]
      in if current_length \<ge> chunk_size
         then chunk_loop chunk_size sentences (chunks @ [join current_chunk]) [] 0
         else chunk_loop chunk_size sentences chunks current_chunk current_length)"

definition chunk_text :: "(string \<Rightarrow> string list) \<Rightarrow> string \<Rightarrow> int \<Rightarrow> string list" where
  "chunk_text sent_tokenize text chunk_size =
     (case chunk_loop chunk_size (sent_tokenize text) [] [] 0 of
        (chunks, current_chunk, current_length) \<Rightarrow>
          if current_chunk \<noteq> [] then chunks @ [join current_chunk] else chunks)"

text \<open>
  The same loop with the joins left out: \<open>group_loop\<close> keeps every closed chunk as the list
  of its sentences.  It exists only to state which sentences a passage holds.
\<close>

fun group_loop ::
  "int \<Rightarrow> string list \<Rightarrow> string list list \<Rightarrow> string list \<Rightarrow> int
     \<Rightarrow> string list list \<times> string list \<times> int"
where
  "group_loop chunk_size [] groups current_chunk current_length =
     (groups, current_chunk, current_length)"
| "group_loop chunk_size (sentence # sentences) groups current_chunk current_length =
     (let current_length = current_length + int (length (split sentence));
          current_chunk = current_chunk @ [sentence]
      in if current_length \<ge> chunk_size
         then group_loop chunk_size sentences (groups @ [current_chunk]) [] 0
         else group_loop chunk_size sentences groups current_chunk current_length)"

definition chunk_groups :: "string list \<Rightarrow> int \<Rightarrow> string list list" where
  "chunk_groups sentences chunk_size =
     (case group_loop chunk_size sentences [] [] 0 of
        (groups, current_chunk, current_length) \<Rightarrow>
          if current_chunk \<noteq> [] then groups @ [current_chunk] else groups)"

text \<open>The word count of a list of sentences, as the loop accumulates it.\<close>

definition word_count :: "string list \<Rightarrow> int" where
  "word_count sentences = (\<Sum>s\<leftarrow>sentences. int (length (split s)))"

section \<open>Errors, effects and list indexing\<close>

text \<open>
  The exceptions the pipeline can end with: Python's own \<open>IndexError\<close>, \<open>AssertionError\<close>
  and \<open>AttributeError\<close>, and any exception raised inside a pretrained model or tokenizer
  (\<open>CapabilityFailure\<close>).
\<close>

datatype error = IndexError | AssertionError | AttributeError | CapabilityFailure

text \<open>
  The only effects of the pipeline are the calls it makes to the two pretrained models.
  They are recorded in a log: \<open>EmbedCall texts\<close> when \<open>encode_text\<close> runs the retrieval
  tokenizer and model on \<open>texts\<close>, \<open>GenerateCall prompt\<close> when \<open>generate_answer\<close> runs the
  generation tokenizer and model on \<open>prompt\<close>.  An action takes the log and returns its
  result, an error or a value, with the extended log.
\<close>

datatype event = EmbedCall "string list" | GenerateCall string

type_synonym 'a action = "event list \<Rightarrow> (error + 'a) \<times> event list"

definition ret :: "'a \<Rightarrow> 'a action" where
  "ret x = (\<lambda>log. (Inr x, log))"

definition lift :: "error + 'a \<Rightarrow> 'a action" where
  "lift r = (\<lambda>log. (r, log))"

definition emit :: "event \<Rightarrow> unit action" where
  "emit ev = (\<lambda>log. (Inr (), log @ [ev]))"

definition bnd :: "'a action \<Rightarrow> ('a \<Rightarrow> 'b action) \<Rightarrow> 'b action" where
  "bnd m f = (\<lambda>log. case m log of
                       (Inl e, log') \<Rightarrow> (Inl e, log')
                     | (Inr x, log') \<Rightarrow> f x log')"

text \<open>Sequencing of results without effects: the first error ends the computation.\<close>

definition seq :: "error + 'a \<Rightarrow> ('a \<Rightarrow> error + 'b) \<Rightarrow> error + 'b" where
  "seq r f = (case r of Inl e \<Rightarrow> Inl e | Inr x \<Rightarrow> f x)"

fun for_each :: "('a \<Rightarrow> error + 'b) \<Rightarrow> 'a list \<Rightarrow> error + 'b list" where
  "for_each f [] = Inr []"
| "for_each f (x # xs) = seq (f x) (\<lambda>y. seq (for_each f xs) (\<lambda>ys. Inr (y # ys)))"

text \<open>
  \<open>xs[i]\<close> on a Python list or an array axis: a negative index counts from the end, and an
  index outside \<open>-len(xs) .. len(xs) - 1\<close> raises \<open>IndexError\<close>.
\<close>

definition getitem :: "'a list \<Rightarrow> int \<Rightarrow> error + 'a" where
  "getitem xs i =
     (if 0 \<le> i \<and> i < int (length xs) then Inr (xs ! nat i)
      else if i < 0 \<and> - int (length xs) \<le> i then Inr (xs ! nat (int (length xs) + i))
      else Inl IndexError)"

section \<open>The embedder\<close>

text \<open>
  \<^verbatim>\<open>
  def encode_text(text_list, model, tokenizer):
      inputs = tokenizer(text_list, padding=True, truncation=True, return_tensors="pt")
      with torch.no_grad():
          outputs = model(**inputs)
          if hasattr(outputs, 'last_hidden_state'):
              embeddings = outputs.last_hidden_state[:, 0, :]
          else:
              embeddings = outputs.pooler_output
      return embeddings.numpy()
  \<close>
  The tokenizer and the model are pretrained library objects: they are parameters, each a
  function that returns its result or raises.  A tokenizer maps a batch of texts to a batch
  of token id sequences.  The model's output has an optional \<open>last_hidden_state\<close> (per text,
  one vector per token position) and an optional \<open>pooler_output\<close> (one vector per text).
  A vector is a value of an arbitrary type \<open>'v\<close>; the model is evaluated without gradient
  and is a function of its input.
\<close>

type_synonym token_ids = "int list"

record 'v model_output =
  last_hidden_state :: "'v list list option"
  pooler_output :: "'v list option"

definition encode_text ::
  "string list \<Rightarrow> (token_ids list \<Rightarrow> error + 'v model_output)
     \<Rightarrow> (string list \<Rightarrow> error + token_ids list) \<Rightarrow> 'v list action"
where
  "encode_text text_list model tokenizer =
     bnd (emit (EmbedCall text_list)) (\<lambda>_.
     bnd (lift (tokenizer text_list)) (\<lambda>inputs.
     bnd (lift (model inputs)) (\<lambda>outputs.
       case last_hidden_state outputs of
         Some hidden \<Rightarrow> lift (for_each (\<lambda>positions. getitem positions 0) hidden)
       | None \<Rightarrow>
           (case pooler_output outputs of
              Some pooled \<Rightarrow> ret pooled
            | None \<Rightarrow> lift (Inl AttributeError)))))"

section \<open>The vector index\<close>

text \<open>
  \<open>faiss.IndexFlatL2\<close> is a library class; the notebook uses it as it is.  The model follows
  the library's documented behaviour.  The index keeps the added vectors in order, the
  vector at position \<open>i\<close> having label \<open>i\<close>.  \<open>search(x, k)\<close> asserts \<open>k > 0\<close> and returns two
  arrays with one row per query and exactly \<open>k\<close> columns: the distances and the labels of the
  nearest stored vectors, nearest first.  Where the index holds fewer than \<open>k\<close> vectors the
  remaining labels are \<open>-1\<close> and the remaining distances a filler (the largest float),
  written \<open>None\<close> here.

  The library computes distances in 32-bit floating point and collects the results of a
  query in a heap that starts as \<open>k\<close> entries with the filler distance and the label \<open>-1\<close>; a
  stored vector replaces an entry only with a distance strictly below it.  So a stored
  vector whose computed distance is not a number below the filler (an overflow to infinity,
  a NaN) is never returned, however few vectors the index holds.  The field \<open>metric\<close> is the
  distance as the library computes it: \<open>Some d\<close> for a number \<open>d\<close> below the filler, \<open>d\<close> of a
  linear order, and \<open>None\<close> otherwise.  \<open>within_reach index q\<close> are the positions of the stored
  vectors with a distance to \<open>q\<close> below the filler, \<open>nearest_labels index k q\<close> the at most \<open>k\<close>
  nearest of them, nearest first.  The order among stored vectors at equal distance is not
  documented: the model returns them by ascending label, and no property below depends on
  that choice.  Every vector comes from one encoder and has its dimension, so the library's
  dimension assertion is not modelled.
\<close>

record ('v, 'd) flat_index =
  metric :: "'v \<Rightarrow> 'v \<Rightarrow> 'd option"
  stored :: "'v list"

definition IndexFlatL2 :: "('v \<Rightarrow> 'v \<Rightarrow> 'd option) \<Rightarrow> ('v, 'd) flat_index" where
  "IndexFlatL2 l2 = \<lparr>metric = l2, stored = []\<rparr>"

definition add :: "('v, 'd) flat_index \<Rightarrow> 'v list \<Rightarrow> ('v, 'd) flat_index" where
  "add index vectors = index\<lparr>stored := stored index @ vectors\<rparr>"

definition within_reach :: "('v, 'd) flat_index \<Rightarrow> 'v \<Rightarrow> nat list" where
  "within_reach index q =
     filter (\<lambda>i. metric index q (stored index ! i) \<noteq> None) [0..<length (stored index)]"

definition nearest_labels :: "('v, 'd::linorder) flat_index \<Rightarrow> int \<Rightarrow> 'v \<Rightarrow> nat list" where
  "nearest_labels index k q =
     take (nat k) (sort_key (\<lambda>i. metric index q (stored index ! i)) (within_reach index q))"

definition search_row ::
  "('v, 'd::linorder) flat_index \<Rightarrow> int \<Rightarrow> 'v \<Rightarrow> ('d option \<times> int) list"
where
  "search_row index k q =
     map (\<lambda>i. (metric index q (stored index ! i), int i)) (nearest_labels index k q)
     @ replicate (nat k - length (nearest_labels index k q)) (None, - 1)"

definition search ::
  "('v, 'd::linorder) flat_index \<Rightarrow> 'v list \<Rightarrow> int
     \<Rightarrow> error + ('d option list list \<times> int list list)"
where
  "search index x k =
     (if k > 0
      then Inr (map (\<lambda>q. map fst (search_row index k q)) x,
                map (\<lambda>q. map snd (search_row index k q)) x)
      else Inl AssertionError)"

text \<open>
  \<^verbatim>\<open>
  def build_faiss_index(chunks, model, tokenizer):
      embeddings = encode_text(chunks, model, tokenizer)
      index = faiss.IndexFlatL2(embeddings.shape[1])
      index.add(embeddings)
      return index, embeddings
  \<close>
  The module \<open>faiss\<close> enters as the distance \<open>l2\<close> its flat index computes; the dimension
  \<open>embeddings.shape[1]\<close> has no counterpart in the model.
\<close>

definition build_faiss_index ::
  "('v \<Rightarrow> 'v \<Rightarrow> 'd option) \<Rightarrow> string list \<Rightarrow> (token_ids list \<Rightarrow> error + 'v model_output)
     \<Rightarrow> (string list \<Rightarrow> error + token_ids list) \<Rightarrow> (('v, 'd) flat_index \<times> 'v list) action"
where
  "build_faiss_index l2 chunks model tokenizer =
     bnd (encode_text chunks model tokenizer) (\<lambda>embeddings.
       let index = IndexFlatL2 l2;
           index = add index embeddings
       in ret (index, embeddings))"

section \<open>The retriever\<close>

text \<open>
  \<^verbatim>\<open>
  def retrieve_text(query, chunks, index, model, tokenizer, top_k=3):
      query_embedding = encode_text([query], model, tokenizer)
      distances, indices = index.search(query_embedding, top_k)
      return [chunks[i] for i in indices[0]]
  \<close>
\<close>

definition retrieve_text ::
  "string \<Rightarrow> string list \<Rightarrow> ('v, 'd::linorder) flat_index
     \<Rightarrow> (token_ids list \<Rightarrow> error + 'v model_output)
     \<Rightarrow> (string list \<Rightarrow> error + token_ids list) \<Rightarrow> int \<Rightarrow> string list action"
where
  "retrieve_text query chunks index model tokenizer top_k =
     bnd (encode_text [query] model tokenizer) (\<lambda>query_embedding.
     bnd (lift (search index query_embedding top_k)) (\<lambda>(distances, indices).
     bnd (lift (getitem indices 0)) (\<lambda>row.
       lift (for_each (\<lambda>i. getitem chunks i) row))))"

section \<open>The generator\<close>

text \<open>
  \<^verbatim>\<open>
  def generate_answer(context, question, model, tokenizer):
      input_text = f"question: {question} context: {context}"
      inputs = tokenizer(input_text, return_tensors="pt", truncation=True)
      outputs = model.generate(**inputs)
      return tokenizer.decode(outputs[0], skip_special_tokens=True)
  \<close>
  The tokenizer object is used twice: called on the prompt, and to decode.  It is a record
  of the two functions; \<open>decode ids skip\<close> is \<open>tokenizer.decode(ids, skip_special_tokens=skip)\<close>.
\<close>

record seq2seq_tokenizer =
  tokenize :: "string \<Rightarrow> error + token_ids list"
  decode :: "token_ids \<Rightarrow> bool \<Rightarrow> string"

definition generate_answer ::
  "string \<Rightarrow> string \<Rightarrow> (token_ids list \<Rightarrow> error + token_ids list)
     \<Rightarrow> seq2seq_tokenizer \<Rightarrow> string action"
where
  "generate_answer context question generate tokenizer =
     (let input_text = ''question: '' @ question @ '' context: '' @ context
      in bnd (emit (GenerateCall input_text)) (\<lambda>_.
         bnd (lift (tokenize tokenizer input_text)) (\<lambda>inputs.
         bnd (lift (generate inputs)) (\<lambda>outputs.
         bnd (lift (getitem outputs 0)) (\<lambda>first.
           ret (decode tokenizer first True))))))"

section \<open>The pipeline\<close>

text \<open>
  \<^verbatim>\<open>
  def answer_question(book_text, question):
      chunks = chunk_text(book_text)
      index, _ = build_faiss_index(chunks, retrieval_model, tokenizer)
      relevant_text = retrieve_text(question, chunks, index, retrieval_model, tokenizer)
      combined_context = " ".join(relevant_text)
      return generate_answer(combined_context, question, generation_model, generation_tokenizer)
  \<close>
  The notebook's globals, and the library functions it imports, are the fields of \<open>env\<close>.
  \<open>chunk_text\<close> is called with its default \<open>chunk_size=200\<close>, \<open>retrieve_text\<close> with its
  default \<open>top_k=3\<close>.
\<close>

record ('v, 'd) env =
  sent_tokenize :: "string \<Rightarrow> string list"
  faiss_l2 :: "'v \<Rightarrow> 'v \<Rightarrow> 'd option"
  retrieval_model :: "token_ids list \<Rightarrow> error + 'v model_output"
  tokenizer :: "string list \<Rightarrow> error + token_ids list"
  generation_model :: "token_ids list \<Rightarrow> error + token_ids list"
  generation_tokenizer :: seq2seq_tokenizer

definition answer_question :: "('v, 'd::linorder) env \<Rightarrow> string \<Rightarrow> string \<Rightarrow> string action" where
  "answer_question env book_text question =
     (let chunks = chunk_text (sent_tokenize env) book_text 200
      in bnd (build_faiss_index (faiss_l2 env) chunks (retrieval_model env) (tokenizer env))
           (\<lambda>(index, _).
         bnd (retrieve_text question chunks index (retrieval_model env) (tokenizer env) 3)
           (\<lambda>relevant_text.
           let combined_context = join relevant_text
           in generate_answer combined_context question
                (generation_model env) (generation_tokenizer env))))"

section \<open>Stand-ins for the pretrained models\<close>

text \<open>
  Deterministic stand-ins on which the pipeline can be run.  Sentences end at a full stop
  and start after the spaces that follow it.  The retrieval tokenizer gives each character
  its code; the retrieval model embeds a text as the two integers (number of tokens, sum of
  the codes).  The index distance \<open>toy_l2\<close> is the squared Euclidean distance on integer
  vectors, a number below the filler when it is below \<open>2 ^ 128\<close>, where 32-bit floating
  point ends.  \<open>wide_model\<close> is the retrieval model with its first component scaled by
  \<open>2 ^ 64\<close>: between two texts of different length its distance is beyond the filler.
  The generator echoes its prompt: token \<open>0\<close> is its only special token.
\<close>

fun sentences_from :: "string \<Rightarrow> string \<Rightarrow> string list" where
  "sentences_from w [] = (if w = [] then [] else [w])"
| "sentences_from w (c # cs) =
     (if c = CHR ''.'' then (w @ [c]) # sentences_from [] cs
      else if w = [] \<and> isspace c then sentences_from [] cs
      else sentences_from (w @ [c]) cs)"

definition toy_sent_tokenize :: "string \<Rightarrow> string list" where
  "toy_sent_tokenize text = sentences_from [] text"

definition toy_tokenizer :: "string list \<Rightarrow> error + token_ids list" where
  "toy_tokenizer texts = Inr (map (map (\<lambda>c. int (of_char c))) texts)"

definition toy_model :: "token_ids list \<Rightarrow> error + (int list) model_output" where
  "toy_model inputs =
     Inr \<lparr>last_hidden_state = Some (map (\<lambda>ids. [[int (length ids), sum_list ids]]) inputs),
          pooler_output = None\<rparr>"

definition wide_model :: "token_ids list \<Rightarrow> error + (int list) model_output" where
  "wide_model inputs =
     Inr \<lparr>last_hidden_state = Some (map (\<lambda>ids. [[2 ^ 64 * int (length ids), sum_list ids]]) inputs),
          pooler_output = None\<rparr>"

definition sq_l2 :: "int list \<Rightarrow> int list \<Rightarrow> int" where
  "sq_l2 x y = (\<Sum>(a, b)\<leftarrow>zip x y. (a - b) * (a - b))"

definition toy_l2 :: "int list \<Rightarrow> int list \<Rightarrow> int option" where
  "toy_l2 x y = (if sq_l2 x y < 2 ^ 128 then Some (sq_l2 x y) else None)"

definition toy_seq2seq_tokenizer :: seq2seq_tokenizer where
  "toy_seq2seq_tokenizer =
     \<lparr>tokenize = (\<lambda>text. Inr [map (\<lambda>c. int (of_char c)) text]),
      decode = (\<lambda>ids skip. map (\<lambda>i. char_of (nat i)) (if skip then filter (\<lambda>i. i \<noteq> 0) ids else ids))\<rparr>"

definition toy_generate :: "token_ids list \<Rightarrow> error + token_ids list" where
  "toy_generate inputs = Inr (map (\<lambda>ids. 0 # ids) inputs)"

definition toy_env :: "(int list, int) env" where
  "toy_env =
     \<lparr>sent_tokenize = toy_sent_tokenize,
      faiss_l2 = toy_l2,
      retrieval_model = toy_model,
      tokenizer = toy_tokenizer,
      generation_model = toy_generate,
      generation_tokenizer = toy_seq2seq_tokenizer\<rparr>"

section \<open>Properties of the string functions\<close>


lemma isspace_space: "isspace CHR '' ''"
  by (simp add: isspace_def)

lemma split_from_append_space:
  "split_from w (a @ CHR '' '' # b) = split_from w a @ split_from [] b"
  by (induction a arbitrary: w) (simp_all add: isspace_space)

lemma split_append_space: "split (a @ CHR '' '' # b) = split a @ split b"
  by (simp add: split_def split_from_append_space)

lemma split_Nil: "split [] = []"
  by (simp add: split_def)

lemma split_join: "length (split (join g)) = (\<Sum>s\<leftarrow>g. length (split s))"
  by (induction g rule: join.induct) (simp_all add: split_append_space split_Nil)

lemma word_count_join: "int (length (split (join g))) = word_count g"
  unfolding word_count_def split_join by (induction g) simp_all

lemma join_append:
  "a \<noteq> [] \<Longrightarrow> b \<noteq> [] \<Longrightarrow> join (a @ b) = join a @ CHR '' '' # join b"
  by (induction a rule: join.induct) (auto simp: neq_Nil_conv)

lemma join_concat:
  "[] \<notin> set gs \<Longrightarrow> join (map join gs) = join (concat gs)"
proof (induction gs)
  case Nil
  then show ?case by simp
next
  case (Cons g gs)
  show ?case
  proof (cases gs)
    case Nil
    then show ?thesis by simp
  next
    case (Cons h hs)
    with Cons.prems have ne: "g \<noteq> []" "concat gs \<noteq> []" by auto
    from Cons.prems Cons.IH have "join (map join gs) = join (concat gs)" by simp
    with Cons ne show ?thesis by (simp add: join_append)
  qed
qed


lemma chunk_loop_group_loop:
  "chunk_loop cs ss (map join gs) cur len =
     (case group_loop cs ss gs cur len of (g, c, l) \<Rightarrow> (map join g, c, l))"
proof (induction ss arbitrary: gs cur len)
  case Nil
  then show ?case by simp
next
  case (Cons s ss)
  show ?case
    using Cons.IH [of "gs @ [cur @ [s]]" "[]" 0] Cons.IH [of gs "cur @ [s]"]
    by (simp add: Let_def)
qed

lemma chunk_text_groups:
  "chunk_text tok text cs = map join (chunk_groups (tok text) cs)"
  using chunk_loop_group_loop [of cs "tok text" "[]" "[]" 0]
  by (simp add: chunk_text_def chunk_groups_def split: prod.splits)

lemma group_loop_concat:
  "group_loop cs ss gs cur len = (g, c, l) \<Longrightarrow> concat g @ c = concat gs @ cur @ ss"
proof (induction ss arbitrary: gs cur len)
  case Nil
  then show ?case by simp
next
  case (Cons s ss)
  then show ?case by (fastforce simp: Let_def split: if_splits)
qed

lemma group_loop_nonempty:
  "group_loop cs ss gs cur len = (g, c, l) \<Longrightarrow> [] \<notin> set gs \<Longrightarrow> [] \<notin> set g"
proof (induction ss arbitrary: gs cur len)
  case Nil
  then show ?case by simp
next
  case (Cons s ss)
  then show ?case by (fastforce simp: Let_def split: if_splits)
qed

lemma concat_chunk_groups: "concat (chunk_groups ss cs) = ss"
proof (cases "group_loop cs ss [] [] 0")
  case (fields g c l)
  from group_loop_concat [OF fields] show ?thesis
    by (auto simp: chunk_groups_def fields)
qed

lemma chunk_groups_nonempty: "[] \<notin> set (chunk_groups ss cs)"
proof (cases "group_loop cs ss [] [] 0")
  case (fields g c l)
  from group_loop_nonempty [OF fields] show ?thesis
    by (simp add: chunk_groups_def fields)
qed

lemma group_loop_full:
  "group_loop cs ss gs cur len = (g, c, l) \<Longrightarrow> len = word_count cur \<Longrightarrow>
   \<forall>x \<in> set gs. cs \<le> word_count x \<Longrightarrow> \<forall>x \<in> set g. cs \<le> word_count x"
proof (induction ss arbitrary: gs cur len)
  case Nil
  then show ?case by simp
next
  case (Cons s ss)
  show ?case
  proof (cases "cs \<le> len + int (length (split s))")
    case True
    with Cons.prems have "group_loop cs ss (gs @ [cur @ [s]]) [] 0 = (g, c, l)"
      by (simp add: Let_def)
    moreover have "\<forall>x \<in> set (gs @ [cur @ [s]]). cs \<le> word_count x"
      using Cons.prems True by (simp add: word_count_def)
    ultimately show ?thesis
      using Cons.IH [of "gs @ [cur @ [s]]" "[]" 0] by (simp add: word_count_def)
  next
    case False
    with Cons.prems have "group_loop cs ss gs (cur @ [s]) (len + int (length (split s))) = (g, c, l)"
      by (simp add: Let_def)
    then show ?thesis
      using Cons.IH [of gs "cur @ [s]" "len + int (length (split s))"] Cons.prems
      by (simp add: word_count_def)
  qed
qed

lemma chunk_groups_full:
  "x \<in> set (butlast (chunk_groups ss cs)) \<Longrightarrow> cs \<le> word_count x"
proof (cases "group_loop cs ss [] [] 0")
  case (fields g c l)
  assume x: "x \<in> set (butlast (chunk_groups ss cs))"
  have all: "\<forall>x \<in> set g. cs \<le> word_count x"
    using group_loop_full [OF fields] by (simp add: word_count_def)
  from x have "x \<in> set g"
    by (auto simp: chunk_groups_def fields butlast_append split: if_splits dest: in_set_butlastD)
  with all show ?thesis by blast
qed

lemma group_loop_small:
  "len + word_count ss < cs \<Longrightarrow>
   group_loop cs ss gs cur len = (gs, cur @ ss, len + word_count ss)"
proof (induction ss arbitrary: cur len)
  case Nil
  then show ?case by (simp add: word_count_def)
next
  case (Cons s ss)
  have nonneg: "0 \<le> word_count ss"
    unfolding word_count_def by (induction ss) simp_all
  from Cons.prems have small: "len + int (length (split s)) + word_count ss < cs"
    by (simp add: word_count_def)
  with nonneg have "\<not> cs \<le> len + int (length (split s))" by linarith
  with Cons.IH [OF small] show ?case
    by (simp add: Let_def word_count_def)
qed

lemma chunk_groups_small:
  "ss \<noteq> [] \<Longrightarrow> word_count ss < cs \<Longrightarrow> chunk_groups ss cs = [ss]"
  using group_loop_small [of 0 ss cs "[]" "[]"] by (simp add: chunk_groups_def)

lemma join_eq_Nil: "join g = [] \<longleftrightarrow> g = [] \<or> g = [[]]"
  by (induction g rule: join.induct) auto

section \<open>Properties of the chunker\<close>

text \<open>
  C1.  The passages of \<open>chunk_text\<close> partition the sentence stream: there are groups of
  sentences, none of them empty, whose concatenation in passage order is the tokenized
  document, each passage being the sentences of its group joined by one space.  So every
  sentence lies in exactly one passage, in the original order, and the passage texts
  joined by one space are the sentences joined by one space.
\<close>

theorem chunk_text_partitions_sentences:
  "\<exists>groups. chunk_text tok text chunk_size = map join groups
      \<and> concat groups = tok text
      \<and> [] \<notin> set groups
      \<and> join (chunk_text tok text chunk_size) = join (tok text)"
proof -
  let ?groups = "chunk_groups (tok text) chunk_size"
  have texts: "chunk_text tok text chunk_size = map join ?groups"
    by (rule chunk_text_groups)
  have all: "concat ?groups = tok text"
    by (rule concat_chunk_groups)
  have ne: "[] \<notin> set ?groups"
    by (rule chunk_groups_nonempty)
  have "join (map join ?groups) = join (concat ?groups)"
    using ne by (rule join_concat)
  with texts all have "join (chunk_text tok text chunk_size) = join (tok text)"
    by simp
  with texts all ne show ?thesis by blast
qed

text \<open>
  C7.  Edge cases of the chunker.  A document without sentences gives no passage.  When
  the tokenizer returns no empty sentence, as NLTK's does, no passage is the empty string.
  A document that has a sentence and whose word count, the sum of the word counts of its
  sentences, is below \<open>chunk_size\<close> gives exactly one passage, holding all the sentences.
\<close>

theorem chunk_text_edge_cases:
  "(tok text = [] \<longrightarrow> chunk_text tok text chunk_size = [])
   \<and> ((\<forall>s \<in> set (tok text). s \<noteq> []) \<longrightarrow> [] \<notin> set (chunk_text tok text chunk_size))
   \<and> (tok text \<noteq> [] \<and> word_count (tok text) < chunk_size
        \<longrightarrow> chunk_text tok text chunk_size = [join (tok text)])"
proof (intro conjI impI)
  assume "tok text = []"
  then show "chunk_text tok text chunk_size = []"
    by (simp add: chunk_text_def)
next
  assume sentences: "\<forall>s \<in> set (tok text). s \<noteq> []"
  show "[] \<notin> set (chunk_text tok text chunk_size)"
  proof
    assume "[] \<in> set (chunk_text tok text chunk_size)"
    then obtain g where g: "g \<in> set (chunk_groups (tok text) chunk_size)" and "join g = []"
      by (auto simp: chunk_text_groups)
    with chunk_groups_nonempty [of "tok text" chunk_size] have "g = [[]]"
      by (auto simp: join_eq_Nil)
    with g have "[] \<in> set (concat (chunk_groups (tok text) chunk_size))"
      by (auto intro!: bexI [of _ "[[]]"])
    then have "[] \<in> set (tok text)"
      by (simp only: concat_chunk_groups)
    with sentences show False
      by blast
  qed
next
  assume "tok text \<noteq> [] \<and> word_count (tok text) < chunk_size"
  then show "chunk_text tok text chunk_size = [join (tok text)]"
    by (simp add: chunk_text_groups chunk_groups_small)
qed

theorem chunk_text_edge_cases_witness:
  "toy_sent_tokenize '''' = []
   \<and> chunk_text toy_sent_tokenize '''' 200 = []
   \<and> [] \<notin> set (toy_sent_tokenize ''A b.  C d.'')
   \<and> [] \<notin> set (chunk_text toy_sent_tokenize ''A b.  C d.'' 200)
   \<and> toy_sent_tokenize ''A b.  C d.'' \<noteq> []
   \<and> word_count (toy_sent_tokenize ''A b.  C d.'') < 200
   \<and> chunk_text toy_sent_tokenize ''A b.  C d.'' 200 = [''A b. C d.'']"
proof -
  have empty: "toy_sent_tokenize '''' = []"
    by code_simp
  have tokens: "toy_sent_tokenize ''A b.  C d.'' = [''A b.'', ''C d.'']"
    by code_simp
  have count: "word_count (toy_sent_tokenize ''A b.  C d.'') = 4"
    unfolding tokens by code_simp
  from chunk_text_edge_cases [of toy_sent_tokenize "''''" 200]
       chunk_text_edge_cases [of toy_sent_tokenize "''A b.  C d.''" 200]
  show ?thesis
    by (simp add: empty count) (simp add: tokens)
qed

text \<open>
  C10.  Every passage but the last has at least \<open>chunk_size\<close> words, counted as
  \<open>len(passage.split())\<close>, which is the sum of the word counts of its sentences.
\<close>

theorem chunk_text_lower_bound:
  "p \<in> set (butlast (chunk_text tok text chunk_size)) \<Longrightarrow> chunk_size \<le> int (length (split p))"
proof -
  assume "p \<in> set (butlast (chunk_text tok text chunk_size))"
  then have "p \<in> join ` set (butlast (chunk_groups (tok text) chunk_size))"
    by (simp add: chunk_text_groups map_butlast [symmetric])
  then obtain g where g: "g \<in> set (butlast (chunk_groups (tok text) chunk_size))" and p: "p = join g"
    by blast
  from g have "chunk_size \<le> word_count g"
    by (rule chunk_groups_full)
  with p show ?thesis
    by (simp add: word_count_join)
qed

theorem chunk_text_lower_bound_witness:
  "''a b.'' \<in> set (butlast (chunk_text toy_sent_tokenize ''a b. c d. e.'' 2))
   \<and> 2 \<le> int (length (split ''a b.''))"
proof -
  have passages: "chunk_text toy_sent_tokenize ''a b. c d. e.'' 2 = [''a b.'', ''c d.'', ''e.'']"
    by code_simp
  have closed: "''a b.'' \<in> set (butlast (chunk_text toy_sent_tokenize ''a b. c d. e.'' 2))"
    unfolding passages by simp
  from closed chunk_text_lower_bound [OF closed] show ?thesis
    by simp
qed

section \<open>Properties of the effects and of list indexing\<close>

lemma encode_text_log:
  "\<exists>r. \<forall>log. encode_text text_list mdl tok log = (r, log @ [EmbedCall text_list])"
  by (intro exI [of _ "fst (encode_text text_list mdl tok [])"])
     (simp add: encode_text_def bnd_def lift_def ret_def emit_def
           split: sum.splits option.splits)

lemma for_each_Inr:
  "for_each f xs = Inr ys \<Longrightarrow> length ys = length xs \<and> (\<forall>j < length xs. f (xs ! j) = Inr (ys ! j))"
proof (induction xs arbitrary: ys)
  case Nil
  then show ?case by simp
next
  case (Cons x xs)
  then obtain y ys' where y: "f x = Inr y" and ys': "for_each f xs = Inr ys'" and ys: "ys = y # ys'"
    by (auto simp: seq_def split: sum.splits)
  from Cons.IH [OF ys'] y ys show ?case
    by (auto simp: nth_Cons split: nat.splits)
qed

lemma getitem_Inr_mem: "getitem xs i = Inr x \<Longrightarrow> x \<in> set xs"
  by (auto simp: getitem_def split: if_splits)

lemma getitem_Nil: "getitem [] i = Inl IndexError"
  by (simp add: getitem_def)

lemma getitem_nat: "i < length xs \<Longrightarrow> getitem xs (int i) = Inr (xs ! i)"
  by (simp add: getitem_def)

lemma getitem_zero: "getitem (x # xs) 0 = Inr x"
  by (simp add: getitem_def)

lemma for_each_getitem_subset:
  assumes "for_each (getitem chunks) row = Inr ps"
  shows "set ps \<subseteq> set chunks"
proof
  fix p assume "p \<in> set ps"
  then obtain j where j: "j < length ps" and p: "p = ps ! j"
    by (auto simp: in_set_conv_nth)
  from for_each_Inr [OF assms] j have "getitem chunks (row ! j) = Inr (ps ! j)"
    by simp
  with p show "p \<in> set chunks"
    by (auto dest: getitem_Inr_mem)
qed

section \<open>Properties of the vector index\<close>

lemma length_within_reach:
  "length (within_reach index q) = length (filter (\<lambda>v. metric index q v \<noteq> None) (stored index))"
proof -
  have "filter (\<lambda>v. metric index q v \<noteq> None) (map (\<lambda>i. stored index ! i) [0..<length (stored index)])
          = map (\<lambda>i. stored index ! i) (within_reach index q)"
    by (simp add: within_reach_def filter_map comp_def)
  then have "filter (\<lambda>v. metric index q v \<noteq> None) (stored index)
          = map (\<lambda>i. stored index ! i) (within_reach index q)"
    by (simp add: map_nth)
  then show ?thesis
    by simp
qed

lemma length_nearest_labels:
  "length (nearest_labels index k q)
     = min (nat k) (length (filter (\<lambda>v. metric index q v \<noteq> None) (stored index)))"
  by (simp add: nearest_labels_def length_within_reach min.commute)

lemma distinct_nearest_labels: "distinct (nearest_labels index k q)"
  by (simp add: nearest_labels_def within_reach_def)

lemma set_nearest_labels:
  "set (nearest_labels index k q)
     \<subseteq> {i. i < length (stored index) \<and> metric index q (stored index ! i) \<noteq> None}"
proof -
  have "set (nearest_labels index k q)
          \<subseteq> set (sort_key (\<lambda>i. metric index q (stored index ! i)) (within_reach index q))"
    unfolding nearest_labels_def by (rule set_take_subset)
  then show ?thesis
    by (auto simp: within_reach_def)
qed

lemma sorted_nearest_labels:
  "sorted (map (\<lambda>i. metric index q (stored index ! i)) (nearest_labels index k q))"
proof -
  let ?key = "\<lambda>i. metric index q (stored index ! i)"
  let ?ranked = "sort_key ?key (within_reach index q)"
  have "sorted (map ?key (take (nat k) ?ranked) @ map ?key (drop (nat k) ?ranked))"
    by (simp flip: map_append)
  then show ?thesis
    by (simp add: nearest_labels_def sorted_append)
qed

lemma sorted_map_Some: "sorted (map Some ds) = sorted ds"
  by (induction ds) simp_all

lemma nearest_distances:
  "\<exists>ds. map (\<lambda>i. metric index q (stored index ! i)) (nearest_labels index k q) = map Some ds
        \<and> sorted ds"
proof -
  let ?key = "\<lambda>i. metric index q (stored index ! i)"
  let ?ds = "map (\<lambda>i. the (?key i)) (nearest_labels index k q)"
  have "?key i = Some (the (?key i))" if "i \<in> set (nearest_labels index k q)" for i
    using that set_nearest_labels [of index k q] by auto
  then have eq: "map ?key (nearest_labels index k q) = map Some ?ds"
    by simp
  with sorted_nearest_labels [of index q k] have "sorted ?ds"
    by (simp only: sorted_map_Some)
  with eq show ?thesis
    by blast
qed

lemma nearest_labels_are_nearest:
  assumes i: "i < length (stored index)" and reach: "metric index q (stored index ! i) = Some d'"
      and out: "i \<notin> set (nearest_labels index k q)"
      and l: "l \<in> set (nearest_labels index k q)"
  shows "metric index q (stored index ! l) \<le> Some d'"
proof -
  let ?key = "\<lambda>i. metric index q (stored index ! i)"
  let ?ranked = "sort_key ?key (within_reach index q)"
  have split: "?ranked = nearest_labels index k q @ drop (nat k) ?ranked"
    by (simp add: nearest_labels_def)
  from i reach have "i \<in> set ?ranked"
    by (simp add: within_reach_def)
  with out have far: "i \<in> set (drop (nat k) ?ranked)"
    by (subst (asm) split) simp
  have "sorted (map ?key ?ranked)"
    by simp
  then have "sorted (map ?key (nearest_labels index k q) @ map ?key (drop (nat k) ?ranked))"
    by (subst (asm) split) simp
  with l far have "?key l \<le> ?key i"
    by (auto simp: sorted_append)
  with reach show ?thesis
    by simp
qed

lemma search_rows:
  "0 < k \<Longrightarrow> search index x k =
     Inr (map (\<lambda>q. map (\<lambda>i. metric index q (stored index ! i)) (nearest_labels index k q)
                     @ replicate (nat k - length (nearest_labels index k q)) None) x,
          map (\<lambda>q. map int (nearest_labels index k q)
                     @ replicate (nat k - length (nearest_labels index k q)) (- 1)) x)"
  by (simp add: search_def search_row_def comp_def)

lemma build_faiss_index_result:
  "build_faiss_index l2 chunks mdl tok log = (Inr (index, embeddings), log') \<Longrightarrow>
     index = \<lparr>metric = l2, stored = embeddings\<rparr>
     \<and> encode_text chunks mdl tok log = (Inr embeddings, log')"
  by (auto simp: build_faiss_index_def bnd_def ret_def IndexFlatL2_def add_def Let_def
           split: prod.splits sum.splits)

text \<open>
  C3.  The claim gives the result of a search the length \<open>min(k, N)\<close>, for every \<open>k\<close>.  The
  flat index rejects \<open>k \<le> 0\<close>, returns exactly \<open>k\<close> columns for every query, whatever the
  number \<open>N\<close> of stored vectors, and returns no stored vector whose distance is not below
  the filler.  As amended, for the index that \<open>build_faiss_index\<close> builds over the
  embeddings of the chunks: \<open>search\<close> with \<open>k \<le> 0\<close> raises \<open>AssertionError\<close>; with \<open>k > 0\<close> it
  returns one row of \<open>k\<close> distances and one row of \<open>k\<close> labels per query.  With \<open>M\<close> the number
  of embeddings whose distance to the query is below the filler, the first \<open>min(k, M)\<close>
  labels are distinct positions of embeddings, in ascending order of their distance to the
  query, and no embedding left out is nearer than one returned; the remaining
  \<open>k - min(k, M)\<close> labels are \<open>-1\<close>, with the filler distance.
\<close>

theorem search_returns_k_columns:
  assumes build: "build_faiss_index l2 chunks mdl tok log = (Inr (index, embeddings), log')"
  shows "(k \<le> 0 \<longrightarrow> search index x k = Inl AssertionError)
    \<and> (0 < k \<longrightarrow>
        (\<exists>D I. search index x k = Inr (D, I) \<and> length D = length x \<and> length I = length x
          \<and> (\<forall>j < length x. length (D ! j) = nat k \<and> length (I ! j) = nat k
              \<and> (\<exists>nearest ds.
                    I ! j = map int nearest @ replicate (nat k - length nearest) (- 1)
                  \<and> D ! j = map Some ds @ replicate (nat k - length nearest) None
                  \<and> map (\<lambda>i. l2 (x ! j) (embeddings ! i)) nearest = map Some ds
                  \<and> sorted ds
                  \<and> length nearest
                      = min (nat k) (length (filter (\<lambda>v. l2 (x ! j) v \<noteq> None) embeddings))
                  \<and> distinct nearest
                  \<and> set nearest \<subseteq> {..<length embeddings}
                  \<and> (\<forall>i < length embeddings. i \<notin> set nearest \<longrightarrow>
                       (\<forall>d'. l2 (x ! j) (embeddings ! i) = Some d' \<longrightarrow>
                          (\<forall>d \<in> set ds. d \<le> d')))))))"
proof (intro conjI impI)
  assume "k \<le> 0"
  then show "search index x k = Inl AssertionError"
    by (simp add: search_def)
next
  assume k: "0 < k"
  from build have index: "metric index = l2" "stored index = embeddings"
    by (auto dest: build_faiss_index_result)
  let ?near = "\<lambda>q. nearest_labels index k q"
  let ?D = "map (\<lambda>q. map (\<lambda>i. l2 q (embeddings ! i)) (?near q)
                     @ replicate (nat k - length (?near q)) None) x"
  let ?I = "map (\<lambda>q. map int (?near q) @ replicate (nat k - length (?near q)) (- 1)) x"
  have result: "search index x k = Inr (?D, ?I)"
    using search_rows [OF k, of index x] by (simp add: index)
  have rows: "length (?D ! j) = nat k \<and> length (?I ! j) = nat k
              \<and> (\<exists>nearest ds.
                    ?I ! j = map int nearest @ replicate (nat k - length nearest) (- 1)
                  \<and> ?D ! j = map Some ds @ replicate (nat k - length nearest) None
                  \<and> map (\<lambda>i. l2 (x ! j) (embeddings ! i)) nearest = map Some ds
                  \<and> sorted ds
                  \<and> length nearest
                      = min (nat k) (length (filter (\<lambda>v. l2 (x ! j) v \<noteq> None) embeddings))
                  \<and> distinct nearest
                  \<and> set nearest \<subseteq> {..<length embeddings}
                  \<and> (\<forall>i < length embeddings. i \<notin> set nearest \<longrightarrow>
                       (\<forall>d'. l2 (x ! j) (embeddings ! i) = Some d' \<longrightarrow>
                          (\<forall>d \<in> set ds. d \<le> d'))))"
    if j: "j < length x" for j
  proof -
    let ?q = "x ! j"
    obtain ds where ds: "map (\<lambda>i. l2 ?q (embeddings ! i)) (?near ?q) = map Some ds"
        and sorted: "sorted ds"
      using nearest_distances [of index ?q k] by (auto simp: index)
    have len: "length (?near ?q) = min (nat k) (length (filter (\<lambda>v. l2 ?q v \<noteq> None) embeddings))"
      using length_nearest_labels [of index k ?q] by (simp add: index)
    have range: "set (?near ?q) \<subseteq> {..<length embeddings}"
      using set_nearest_labels [of index k ?q] by (auto simp: index)
    have best: "d \<le> d'"
      if "i < length embeddings" "i \<notin> set (?near ?q)" "l2 ?q (embeddings ! i) = Some d'"
         "d \<in> set ds" for i d d'
    proof -
      from \<open>d \<in> set ds\<close> have "Some d \<in> set (map (\<lambda>i. l2 ?q (embeddings ! i)) (?near ?q))"
        by (simp add: ds)
      then obtain l where l: "l \<in> set (?near ?q)" and d: "l2 ?q (embeddings ! l) = Some d"
        by auto
      from nearest_labels_are_nearest [of i index ?q d' k l] that l
      have "l2 ?q (embeddings ! l) \<le> Some d'"
        by (simp add: index)
      with d show ?thesis
        by simp
    qed
    have Drow: "?D ! j = map Some ds @ replicate (nat k - length (?near ?q)) None"
      using j ds by simp
    have Irow: "?I ! j = map int (?near ?q) @ replicate (nat k - length (?near ?q)) (- 1)"
      using j by simp
    have lenD: "length (?D ! j) = nat k" and lenI: "length (?I ! j) = nat k"
      using j len by simp_all
    from Drow Irow ds sorted len range best distinct_nearest_labels [of index k ?q] lenD lenI
    show ?thesis
      by (intro conjI exI [of _ "?near ?q"] exI [of _ ds]) (simp_all only:, blast)
  qed
  have "length ?D = length x" "length ?I = length x"
    by simp_all
  with result rows
  show "\<exists>D I. search index x k = Inr (D, I) \<and> length D = length x \<and> length I = length x
          \<and> (\<forall>j < length x. length (D ! j) = nat k \<and> length (I ! j) = nat k
              \<and> (\<exists>nearest ds.
                    I ! j = map int nearest @ replicate (nat k - length nearest) (- 1)
                  \<and> D ! j = map Some ds @ replicate (nat k - length nearest) None
                  \<and> map (\<lambda>i. l2 (x ! j) (embeddings ! i)) nearest = map Some ds
                  \<and> sorted ds
                  \<and> length nearest
                      = min (nat k) (length (filter (\<lambda>v. l2 (x ! j) v \<noteq> None) embeddings))
                  \<and> distinct nearest
                  \<and> set nearest \<subseteq> {..<length embeddings}
                  \<and> (\<forall>i < length embeddings. i \<notin> set nearest \<longrightarrow>
                       (\<forall>d'. l2 (x ! j) (embeddings ! i) = Some d' \<longrightarrow>
                          (\<forall>d \<in> set ds. d \<le> d')))))"
    by blast
qed

theorem search_returns_k_columns_witness:
  "build_faiss_index toy_l2 [''a'', ''bc'', ''d''] toy_model toy_tokenizer []
     = (Inr (\<lparr>metric = toy_l2, stored = [[1, 97], [2, 197], [1, 100]]\<rparr>, [[1, 97], [2, 197], [1, 100]]),
        [EmbedCall [''a'', ''bc'', ''d'']])
   \<and> (0::int) \<le> 0
   \<and> search \<lparr>metric = toy_l2, stored = [[1, 97], [2, 197], [1, 100]]\<rparr> [[2, 196]] 0
       = Inl AssertionError
   \<and> (0::int) < 2
   \<and> search \<lparr>metric = toy_l2, stored = [[1, 97], [2, 197], [1, 100]]\<rparr> [[2, 196]] 2
       = Inr ([[Some 1, Some 9217]], [[1, 2]])"
proof -
  have build: "build_faiss_index toy_l2 [''a'', ''bc'', ''d''] toy_model toy_tokenizer []
     = (Inr (\<lparr>metric = toy_l2, stored = [[1, 97], [2, 197], [1, 100]]\<rparr>, [[1, 97], [2, 197], [1, 100]]),
        [EmbedCall [''a'', ''bc'', ''d'']])"
    by (simp add: build_faiss_index_def encode_text_def bnd_def emit_def lift_def ret_def
          toy_tokenizer_def toy_model_def for_each.simps seq_def getitem_def IndexFlatL2_def add_def)
  have two: "search \<lparr>metric = toy_l2, stored = [[1, 97], [2, 197], [1, 100]]\<rparr> [[2, 196]] 2
       = Inr ([[Some 1, Some 9217]], [[1, 2]])"
    by code_simp
  from search_returns_k_columns [OF build, of 0 "[[2, 196]]"]
       search_returns_k_columns [OF build, of 2 "[[2, 196]]"] build two
  show ?thesis
    by simp
qed

text \<open>
  The claim fails in each of the three respects.  An index of one vector searched with
  \<open>k = 3\<close> returns three columns, not \<open>min(3, 1) = 1\<close>.  Searched with \<open>k = 0\<close> it raises,
  where \<open>min(0, 1) = 0\<close> results are claimed.  An index of one vector whose distance to the
  query is beyond the filler returns the label \<open>-1\<close> for \<open>k = 1\<close>, where \<open>min(1, 1) = 1\<close> result
  is claimed.
\<close>

theorem search_short_index_counterexample:
  "search \<lparr>metric = toy_l2, stored = [[1, 97]]\<rparr> [[1, 100]] 3
     = Inr ([[Some 9, None, None]], [[0, - 1, - 1]])
   \<and> search \<lparr>metric = toy_l2, stored = [[1, 97]]\<rparr> [[1, 100]] 0 = Inl AssertionError
   \<and> search \<lparr>metric = toy_l2, stored = [[2 * 2 ^ 64, 242]]\<rparr> [[2 ^ 64, 119]] 1
     = Inr ([[None]], [[- 1]])"
  by code_simp

section \<open>Properties of the retriever\<close>

lemma for_each_getitem_nat:
  "set ls \<subseteq> {..<length xs} \<Longrightarrow> for_each (getitem xs) (map int ls) = Inr (map (\<lambda>i. xs ! i) ls)"
  by (induction ls) (simp_all add: seq_def getitem_nat)

lemma retrieve_text_rows:
  assumes q: "encode_text [query] mdl tok log = (Inr (qv # others), log')" and k: "0 < top_k"
  shows "retrieve_text query chunks index mdl tok top_k log =
           (for_each (getitem chunks)
              (map int (nearest_labels index top_k qv)
               @ replicate (nat top_k - length (nearest_labels index top_k qv)) (- 1)), log')"
  using q k by (simp add: retrieve_text_def bnd_def lift_def search_rows getitem_zero)

text \<open>
  C4.  The claim covers every \<open>top_k\<close> up to the number of passages.  The index rejects
  \<open>top_k = 0\<close>, and it returns no passage whose embedding has a distance to the query that
  is not below the filler.  As amended: let the index be built from the chunks, the encoder
  returning one vector per chunk, let the encoder return a vector \<open>qv\<close> for the query, and
  let \<open>0 < top_k \<le> M\<close>, where \<open>M\<close> is the number of passages whose embedding has a distance
  to \<open>qv\<close> below the filler (every passage, when no distance overflows).  Then
  \<open>retrieve_text\<close> returns exactly \<open>top_k\<close> passages, at distinct positions of the chunk list,
  each a chunk of the document, in non-decreasing order of the distance between \<open>qv\<close> and
  the passage's embedding.
\<close>

theorem retrieve_text_top_k:
  assumes build: "build_faiss_index l2 chunks mdl tok log0 = (Inr (index, embeddings), log1)"
    and one_each: "length embeddings = length chunks"
    and positive: "0 < top_k"
    and enough: "top_k \<le> int (length (filter (\<lambda>v. l2 qv v \<noteq> None) embeddings))"
    and q: "encode_text [query] mdl tok log = (Inr (qv # others), log')"
  shows "\<exists>labels ds. retrieve_text query chunks index mdl tok top_k log
                      = (Inr (map (\<lambda>i. chunks ! i) labels), log')
           \<and> int (length labels) = top_k
           \<and> distinct labels
           \<and> set labels \<subseteq> {..<length chunks}
           \<and> set (map (\<lambda>i. chunks ! i) labels) \<subseteq> set chunks
           \<and> map (\<lambda>i. l2 qv (embeddings ! i)) labels = map Some ds
           \<and> sorted ds"
proof -
  let ?labels = "nearest_labels index top_k qv"
  from build have index: "metric index = l2" "stored index = embeddings"
    by (auto dest: build_faiss_index_result)
  have len: "length ?labels = nat top_k"
    using enough by (simp add: length_nearest_labels index)
  have range: "set ?labels \<subseteq> {..<length chunks}"
    using set_nearest_labels [of index top_k qv] one_each by (auto simp: index)
  then have "for_each (getitem chunks) (map int ?labels) = Inr (map (\<lambda>i. chunks ! i) ?labels)"
    by (rule for_each_getitem_nat)
  with len have found: "retrieve_text query chunks index mdl tok top_k log
                          = (Inr (map (\<lambda>i. chunks ! i) ?labels), log')"
    by (simp add: retrieve_text_rows [OF q positive])
  obtain ds where ds: "map (\<lambda>i. l2 qv (embeddings ! i)) ?labels = map Some ds" and sorted: "sorted ds"
    using nearest_distances [of index qv top_k] by (auto simp: index)
  from range have "set (map (\<lambda>i. chunks ! i) ?labels) \<subseteq> set chunks"
    by auto
  with found len positive range ds sorted distinct_nearest_labels [of index top_k qv]
  show ?thesis
    by (intro exI [of _ ?labels] exI [of _ ds]) simp
qed

theorem retrieve_text_top_k_witness:
  "build_faiss_index toy_l2 [''a'', ''bc'', ''d''] toy_model toy_tokenizer []
     = (Inr (\<lparr>metric = toy_l2, stored = [[1, 97], [2, 197], [1, 100]]\<rparr>, [[1, 97], [2, 197], [1, 100]]),
        [EmbedCall [''a'', ''bc'', ''d'']])
   \<and> length [[1, 97], [2, 197], [1, 100 :: int]] = length [''a'', ''bc'', ''d'']
   \<and> (0::int) < 2
   \<and> (2::int) \<le> int (length (filter (\<lambda>v. toy_l2 [2, 196] v \<noteq> None) [[1, 97], [2, 197], [1, 100]]))
   \<and> encode_text [''bb''] toy_model toy_tokenizer [EmbedCall [''a'', ''bc'', ''d'']]
       = (Inr [[2, 196]], [EmbedCall [''a'', ''bc'', ''d''], EmbedCall [''bb'']])
   \<and> retrieve_text ''bb'' [''a'', ''bc'', ''d'']
         \<lparr>metric = toy_l2, stored = [[1, 97], [2, 197], [1, 100]]\<rparr> toy_model toy_tokenizer 2
         [EmbedCall [''a'', ''bc'', ''d'']]
       = (Inr [''bc'', ''d''], [EmbedCall [''a'', ''bc'', ''d''], EmbedCall [''bb'']])"
proof -
  have build: "build_faiss_index toy_l2 [''a'', ''bc'', ''d''] toy_model toy_tokenizer []
     = (Inr (\<lparr>metric = toy_l2, stored = [[1, 97], [2, 197], [1, 100]]\<rparr>, [[1, 97], [2, 197], [1, 100]]),
        [EmbedCall [''a'', ''bc'', ''d'']])"
    by (simp add: build_faiss_index_def encode_text_def bnd_def emit_def lift_def ret_def
          toy_tokenizer_def toy_model_def for_each.simps seq_def getitem_def IndexFlatL2_def add_def)
  have one_each: "length [[1, 97], [2, 197], [1, 100 :: int]] = length [''a'', ''bc'', ''d'']"
    by simp
  have positive: "(0::int) < 2"
    by simp
  have enough: "(2::int) \<le> int (length (filter (\<lambda>v. toy_l2 [2, 196] v \<noteq> None) [[1, 97], [2, 197], [1, 100]]))"
    by code_simp
  have q: "encode_text [''bb''] toy_model toy_tokenizer [EmbedCall [''a'', ''bc'', ''d'']]
       = (Inr ([2, 196] # []), [EmbedCall [''a'', ''bc'', ''d''], EmbedCall [''bb'']])"
    by code_simp
  have found: "retrieve_text ''bb'' [''a'', ''bc'', ''d'']
         \<lparr>metric = toy_l2, stored = [[1, 97], [2, 197], [1, 100]]\<rparr> toy_model toy_tokenizer 2
         [EmbedCall [''a'', ''bc'', ''d'']]
       = (Inr [''bc'', ''d''], [EmbedCall [''a'', ''bc'', ''d''], EmbedCall [''bb'']])"
    by code_simp
  from retrieve_text_top_k [OF build one_each positive enough q] build one_each positive enough q found
  show ?thesis
    by blast
qed

text \<open>
  The claim fails in both respects.  With three passages and \<open>top_k = 0\<close> the retriever
  raises \<open>AssertionError\<close> where zero passages are claimed.  With the three passages
  \<open>z\<close>, \<open>yy\<close>, \<open>x\<close> embedded by \<open>wide_model\<close>, the query \<open>w\<close> and \<open>top_k = 3\<close>, the passage \<open>yy\<close> is
  beyond the filler: the labels are 2, 0 and \<open>-1\<close>, and the passages returned are \<open>x\<close>, \<open>z\<close>
  and \<open>x\<close> again, at the distances 1, 9 and 1.
\<close>

theorem retrieve_text_top_k_counterexample:
  "(case build_faiss_index toy_l2 [''a'', ''bc'', ''d''] toy_model toy_tokenizer [] of
      (Inr (index, embeddings), log) \<Rightarrow>
         retrieve_text ''bb'' [''a'', ''bc'', ''d''] index toy_model toy_tokenizer 0 log
           = (Inl AssertionError, [EmbedCall [''a'', ''bc'', ''d''], EmbedCall [''bb'']])
    | (Inl e, log) \<Rightarrow> False)
   \<and> (case build_faiss_index toy_l2 [''z'', ''yy'', ''x''] wide_model toy_tokenizer [] of
      (Inr (index, embeddings), log) \<Rightarrow>
         embeddings = [[2 ^ 64, 122], [2 * 2 ^ 64, 242], [2 ^ 64, 120]]
         \<and> encode_text [''w''] wide_model toy_tokenizer log
             = (Inr [[2 ^ 64, 119]], [EmbedCall [''z'', ''yy'', ''x''], EmbedCall [''w'']])
         \<and> search index [[2 ^ 64, 119]] 3 = Inr ([[Some 1, Some 9, None]], [[2, 0, - 1]])
         \<and> retrieve_text ''w'' [''z'', ''yy'', ''x''] index wide_model toy_tokenizer 3 log
             = (Inr [''x'', ''z'', ''x''], [EmbedCall [''z'', ''yy'', ''x''], EmbedCall [''w'']])
    | (Inl e, log) \<Rightarrow> False)
   \<and> map (sq_l2 [2 ^ 64, 119]) [[2 ^ 64, 120], [2 ^ 64, 122], [2 ^ 64, 120]] = [1, 9, 1]"
  by code_simp

text \<open>
  Beyond what the index returns the retriever does not stop at the passages there are:
  after the labels of the nearest stored vectors every further label is \<open>-1\<close>, and
  \<open>chunks[-1]\<close> is the last passage.
\<close>

lemma for_each_append:
  "for_each f xs = Inr as \<Longrightarrow> for_each f ys = Inr bs \<Longrightarrow> for_each f (xs @ ys) = Inr (as @ bs)"
  by (induction xs arbitrary: as) (auto simp: seq_def split: sum.splits)

lemma getitem_last: "xs \<noteq> [] \<Longrightarrow> getitem xs (- 1) = Inr (last xs)"
  by (cases xs rule: rev_cases) (simp_all add: getitem_def)

lemma for_each_replicate:
  "f x = Inr y \<Longrightarrow> for_each f (replicate n x) = Inr (replicate n y)"
  by (induction n) (simp_all add: seq_def)

lemma retrieve_text_beyond_index:
  assumes q: "encode_text [query] mdl tok log = (Inr (qv # others), log')"
    and one_each: "length (stored index) = length chunks"
    and some: "chunks \<noteq> []"
    and positive: "0 < top_k"
  shows "retrieve_text query chunks index mdl tok top_k log =
           (Inr (map (\<lambda>i. chunks ! i) (nearest_labels index top_k qv)
                 @ replicate (nat top_k - length (nearest_labels index top_k qv)) (last chunks)),
            log')"
proof -
  let ?labels = "nearest_labels index top_k qv"
  have "set ?labels \<subseteq> {..<length chunks}"
    using set_nearest_labels [of index top_k qv] one_each by auto
  then have real: "for_each (getitem chunks) (map int ?labels) = Inr (map (\<lambda>i. chunks ! i) ?labels)"
    by (rule for_each_getitem_nat)
  have filler: "for_each (getitem chunks) (replicate (nat top_k - length ?labels) (- 1))
                  = Inr (replicate (nat top_k - length ?labels) (last chunks))"
    using some by (intro for_each_replicate getitem_last)
  from for_each_append [OF real filler] show ?thesis
    by (simp add: retrieve_text_rows [OF q positive])
qed

text \<open>
  C2.  The claim has \<open>retrieve_text\<close> clamp \<open>top_k\<close> to the number of passages.  The function
  passes \<open>top_k\<close> to the index as it is and uses every returned label as a list index, the
  filler label \<open>-1\<close> too, which Python reads as the last element.  On a document of one
  passage, with the default \<open>top_k = 3\<close>, the retriever returns that passage three times, and
  \<open>answer_question\<close> builds its context from the three copies.
\<close>

theorem retrieve_text_exceeding_top_k:
  "(case build_faiss_index toy_l2 [''Only passage.''] toy_model toy_tokenizer [] of
      (Inr (index, embeddings), log) \<Rightarrow>
         retrieve_text ''What?'' [''Only passage.''] index toy_model toy_tokenizer 3 log
           = (Inr [''Only passage.'', ''Only passage.'', ''Only passage.''],
              [EmbedCall [''Only passage.''], EmbedCall [''What?'']])
    | (Inl e, log) \<Rightarrow> False)
   \<and> answer_question toy_env ''Only passage.'' ''What?'' []
     = (Inr ''question: What? context: Only passage. Only passage. Only passage.'',
        [EmbedCall [''Only passage.''], EmbedCall [''What?''],
         GenerateCall ''question: What? context: Only passage. Only passage. Only passage.''])"
  by code_simp

section \<open>Properties of the pipeline\<close>

lemma build_faiss_index_log:
  "\<exists>r. \<forall>log. build_faiss_index l2 chunks mdl tok log = (r, log @ [EmbedCall chunks])"
proof -
  obtain r where r: "\<And>log. encode_text chunks mdl tok log = (r, log @ [EmbedCall chunks])"
    using encode_text_log by blast
  show ?thesis
    by (cases r) (simp_all add: build_faiss_index_def bnd_def ret_def r Let_def)
qed

lemma retrieve_text_log:
  "\<exists>r. \<forall>log. retrieve_text query chunks index mdl tok top_k log = (r, log @ [EmbedCall [query]])"
proof -
  obtain r where r: "\<And>log. encode_text [query] mdl tok log = (r, log @ [EmbedCall [query]])"
    using encode_text_log by blast
  show ?thesis
    by (intro exI [of _ "fst (retrieve_text query chunks index mdl tok top_k [])"])
       (simp add: retrieve_text_def bnd_def lift_def r split: sum.splits prod.splits)
qed

lemma generate_answer_log:
  "\<exists>r. \<forall>log. generate_answer context question gen tkz log =
     (r, log @ [GenerateCall (''question: '' @ question @ '' context: '' @ context)])"
  by (intro exI [of _ "fst (generate_answer context question gen tkz [])"])
     (simp add: generate_answer_def bnd_def lift_def ret_def emit_def Let_def
      split: sum.splits prod.splits)

lemma for_each_getitem_Nil: "row \<noteq> [] \<Longrightarrow> for_each (getitem []) row = Inl IndexError"
  by (cases row) (simp_all add: seq_def getitem_Nil)

lemma retrieve_text_no_chunks:
  assumes "0 < top_k"
  shows "\<exists>e. retrieve_text query [] index mdl tok top_k log = (Inl e, log @ [EmbedCall [query]])"
proof -
  obtain r where r: "\<And>log. encode_text [query] mdl tok log = (r, log @ [EmbedCall [query]])"
    using encode_text_log by blast
  show ?thesis
  proof (cases r)
    case (Inl e)
    then show ?thesis
      by (simp add: retrieve_text_def bnd_def r)
  next
    case (Inr query_embedding)
    show ?thesis
    proof (cases query_embedding)
      case Nil
      with Inr assms show ?thesis
        by (simp add: retrieve_text_def bnd_def lift_def r search_rows getitem_Nil)
    next
      case (Cons qv others)
      define row where "row = map int (nearest_labels index top_k qv)
                    @ replicate (nat top_k - length (nearest_labels index top_k qv)) (- 1)"
      from Inr Cons have "encode_text [query] mdl tok log = (Inr (qv # others), log @ [EmbedCall [query]])"
        by (simp add: r)
      then have found: "retrieve_text query [] index mdl tok top_k log
                          = (for_each (getitem []) row, log @ [EmbedCall [query]])"
        unfolding row_def using assms by (rule retrieve_text_rows)
      have "length row = nat top_k"
        by (simp add: row_def length_nearest_labels)
      with assms have "row \<noteq> []"
        by (metis length_0_conv nat_0_iff not_less)
      then have "for_each (getitem ([] :: string list)) row = Inl IndexError"
        by (rule for_each_getitem_Nil)
      with found show ?thesis
        by simp
    qed
  qed
qed

text \<open>
  On a document without sentences the pipeline has no passage to index, and the retriever
  then indexes the empty chunk list: whatever the tokenizers and models do, the question
  ends with an error after at most two embedding calls, and the generator is not called.
\<close>

lemma answer_question_no_sentences:
  assumes "sent_tokenize env text = []"
  shows "chunk_text (sent_tokenize env) text 200 = []
    \<and> (\<exists>e evs. answer_question env text question log = (Inl e, log @ evs)
          \<and> set evs \<subseteq> {EmbedCall [], EmbedCall [question]})"
proof -
  have chunks: "chunk_text (sent_tokenize env) text 200 = []"
    using assms by (simp add: chunk_text_def)
  obtain r where r: "\<And>log. build_faiss_index (faiss_l2 env) [] (retrieval_model env) (tokenizer env) log
                              = (r, log @ [EmbedCall []])"
    using build_faiss_index_log by blast
  have "\<exists>e evs. answer_question env text question log = (Inl e, log @ evs)
          \<and> set evs \<subseteq> {EmbedCall [], EmbedCall [question]}"
  proof (cases r)
    case (Inl e)
    then have "answer_question env text question log = (Inl e, log @ [EmbedCall []])"
      by (simp add: answer_question_def chunks bnd_def r)
    then show ?thesis
      by (intro exI [of _ e] exI [of _ "[EmbedCall []]"]) simp
  next
    case (Inr built)
    obtain index embeddings where built: "built = (index, embeddings)"
      by (cases built)
    obtain e where e: "retrieve_text question [] index (retrieval_model env) (tokenizer env) 3
                         (log @ [EmbedCall []]) = (Inl e, (log @ [EmbedCall []]) @ [EmbedCall [question]])"
    proof -
      have "0 < (3::int)" by simp
      from retrieve_text_no_chunks [OF this] show ?thesis
        using that by blast
    qed
    from Inr built have "answer_question env text question log
                           = (Inl e, log @ [EmbedCall [], EmbedCall [question]])"
      by (simp add: answer_question_def chunks bnd_def r e)
    then show ?thesis
      by (intro exI [of _ e] exI [of _ "[EmbedCall [], EmbedCall [question]]"]) simp
  qed
  with chunks show ?thesis by blast
qed

text \<open>
  C5.  The claim has \<open>answer_question\<close> answer from an empty context when the document has
  no passage.  The empty document and a document of three spaces do give zero passages,
  but the question then raises \<open>IndexError\<close>: the index holds no vector, returns the filler
  label \<open>-1\<close> three times, and \<open>chunks[-1]\<close> does not exist in the empty chunk list.  The
  generator is never called, although on the empty context it does answer.
\<close>

theorem answer_question_empty_document:
  "chunk_text toy_sent_tokenize '''' 200 = []
   \<and> answer_question toy_env '''' ''What?'' [] = (Inl IndexError, [EmbedCall [], EmbedCall [''What?'']])
   \<and> chunk_text toy_sent_tokenize ''   '' 200 = []
   \<and> answer_question toy_env ''   '' ''What?'' [] = (Inl IndexError, [EmbedCall [], EmbedCall [''What?'']])
   \<and> generate_answer (join []) ''What?'' toy_generate toy_seq2seq_tokenizer []
       = (Inr ''question: What? context: '', [GenerateCall ''question: What? context: ''])"
  by code_simp

lemma retrieve_text_subset:
  assumes "retrieve_text query chunks index mdl tok top_k log = (Inr relevant, log')"
  shows "set relevant \<subseteq> set chunks"
proof -
  from assms obtain row where "for_each (getitem chunks) row = Inr relevant"
    by (auto simp: retrieve_text_def bnd_def lift_def split: sum.splits prod.splits)
  then show ?thesis
    by (rule for_each_getitem_subset)
qed

lemma answer_question_shape:
  "\<exists>r evs.
     (\<forall>log. answer_question env text question log
              = (r, log @ EmbedCall (chunk_text (sent_tokenize env) text 200) # evs))
     \<and> (\<forall>answer. r = Inr answer \<longrightarrow>
           (\<exists>relevant. set relevant \<subseteq> set (chunk_text (sent_tokenize env) text 200)
              \<and> evs = [EmbedCall [question],
                        GenerateCall (''question: '' @ question @ '' context: '' @ join relevant)]))"
proof -
  let ?chunks = "chunk_text (sent_tokenize env) text 200"
  obtain rb where rb: "\<And>log. build_faiss_index (faiss_l2 env) ?chunks (retrieval_model env)
                                (tokenizer env) log = (rb, log @ [EmbedCall ?chunks])"
    using build_faiss_index_log by blast
  show ?thesis
  proof (cases rb)
    case (Inl e)
    then have "\<forall>log. answer_question env text question log = (Inl e, log @ EmbedCall ?chunks # [])"
      by (simp add: answer_question_def bnd_def rb)
    then show ?thesis
      by (intro exI [of _ "Inl e"] exI [of _ "[]"]) simp
  next
    case (Inr built)
    obtain index embeddings where built: "built = (index, embeddings)"
      by (cases built)
    obtain rr where rr: "\<And>log. retrieve_text question ?chunks index (retrieval_model env)
                                  (tokenizer env) 3 log = (rr, log @ [EmbedCall [question]])"
      using retrieve_text_log by blast
    show ?thesis
    proof (cases rr)
      case (Inl e)
      with Inr built
      have "\<forall>log. answer_question env text question log
                    = (Inl e, log @ EmbedCall ?chunks # [EmbedCall [question]])"
        by (simp add: answer_question_def bnd_def rb rr)
      then show ?thesis
        by (intro exI [of _ "Inl e"] exI [of _ "[EmbedCall [question]]"]) simp
    next
      case relevant: (Inr relevant)
      let ?prompt = "''question: '' @ question @ '' context: '' @ join relevant"
      obtain rg where rg: "\<And>log. generate_answer (join relevant) question (generation_model env)
                                    (generation_tokenizer env) log = (rg, log @ [GenerateCall ?prompt])"
        using generate_answer_log by blast
      from rr [of "[]"] relevant have sub: "set relevant \<subseteq> set ?chunks"
        by (auto dest: retrieve_text_subset)
      from Inr built relevant
      have "\<forall>log. answer_question env text question log
                    = (rg, log @ EmbedCall ?chunks # [EmbedCall [question], GenerateCall ?prompt])"
        by (simp add: answer_question_def bnd_def rb rr rg Let_def)
      with sub show ?thesis
        by (intro exI [of _ rg] exI [of _ "[EmbedCall [question], GenerateCall ?prompt]"]) blast
    qed
  qed
qed

text \<open>
  C6.  The claim has a state without a document, in which a question fails with
  \<open>NotReady\<close> before any model is called.  \<open>answer_question\<close> has no such state: the
  document is an argument of every call.  As amended: every call of \<open>answer_question\<close>,
  whatever was called before, starts by chunking the document it is given and embedding
  the chunks; an error \<open>NotReady\<close> does not exist.
\<close>

theorem answer_question_loads_on_every_call:
  "\<exists>r evs. answer_question env text question log
              = (r, log @ EmbedCall (chunk_text (sent_tokenize env) text 200) # evs)"
  using answer_question_shape [of env "text" question] by blast

text \<open>
  The claim fails on the first call of a session, with nothing in the log: the call returns
  an answer, after two embedding calls and one generation call.
\<close>

theorem answer_question_first_call_counterexample:
  "answer_question toy_env ''Elias found a map. It was old.'' ''What?'' []
     = (Inr ''question: What? context: Elias found a map. It was old. Elias found a map. It was old. Elias found a map. It was old.'',
        [EmbedCall [''Elias found a map. It was old.''],
         EmbedCall [''What?''],
         GenerateCall ''question: What? context: Elias found a map. It was old. Elias found a map. It was old. Elias found a map. It was old.''])"
  by code_simp

text \<open>
  C9.  A question on a second document, asked after any question on a first one, is
  answered from passages of the second document only: the context given to the generator is
  the join of chunks of the second document, and the chunk list embedded is that of the
  second document.  A question changes nothing that a later question depends on: the
  answer is the same whether asked before or after another call, and repeating the first
  question after the other calls gives the first result again.
\<close>

theorem answer_question_current_document:
  assumes first: "answer_question env text1 question1 log = (r1, log1)"
      and second: "answer_question env text2 question2 log1 = (Inr answer, log2)"
  shows "(\<exists>relevant. set relevant \<subseteq> set (chunk_text (sent_tokenize env) text2 200)
            \<and> log2 = log1 @ [EmbedCall (chunk_text (sent_tokenize env) text2 200),
                              EmbedCall [question2],
                              GenerateCall (''question: '' @ question2 @ '' context: '' @ join relevant)])
         \<and> fst (answer_question env text2 question2 log) = Inr answer
         \<and> fst (answer_question env text1 question1 log1) = r1
         \<and> fst (answer_question env text1 question1 log2) = r1"
proof -
  obtain ra evs where a: "\<And>log. answer_question env text1 question1 log
                                  = (ra, log @ EmbedCall (chunk_text (sent_tokenize env) text1 200) # evs)"
    using answer_question_shape [of env text1 question1] by blast
  obtain rb evs' where b: "\<And>log. answer_question env text2 question2 log
                                  = (rb, log @ EmbedCall (chunk_text (sent_tokenize env) text2 200) # evs')"
    and shape: "\<And>answer. rb = Inr answer \<Longrightarrow>
           (\<exists>relevant. set relevant \<subseteq> set (chunk_text (sent_tokenize env) text2 200)
              \<and> evs' = [EmbedCall [question2],
                        GenerateCall (''question: '' @ question2 @ '' context: '' @ join relevant)])"
    using answer_question_shape [of env text2 question2] by blast
  from first a have r1: "ra = r1" by simp
  from second b have rb: "rb = Inr answer"
    and log2: "log2 = log1 @ EmbedCall (chunk_text (sent_tokenize env) text2 200) # evs'"
    by simp_all
  from shape [OF rb] log2 a b r1 rb show ?thesis
    by auto
qed

theorem answer_question_current_document_witness:
  "answer_question toy_env ''A b.'' ''x'' []
     = (Inr ''question: x context: A b. A b. A b.'',
        [EmbedCall [''A b.''], EmbedCall [''x''], GenerateCall ''question: x context: A b. A b. A b.''])
   \<and> answer_question toy_env ''C d e.'' ''y''
         [EmbedCall [''A b.''], EmbedCall [''x''], GenerateCall ''question: x context: A b. A b. A b.'']
     = (Inr ''question: y context: C d e. C d e. C d e.'',
        [EmbedCall [''A b.''], EmbedCall [''x''], GenerateCall ''question: x context: A b. A b. A b.'',
         EmbedCall [''C d e.''], EmbedCall [''y''], GenerateCall ''question: y context: C d e. C d e. C d e.''])
   \<and> fst (answer_question toy_env ''C d e.'' ''y'' []) = Inr ''question: y context: C d e. C d e. C d e.''"
proof -
  have one: "answer_question toy_env ''A b.'' ''x'' []
     = (Inr ''question: x context: A b. A b. A b.'',
        [EmbedCall [''A b.''], EmbedCall [''x''], GenerateCall ''question: x context: A b. A b. A b.''])"
    by code_simp
  have two: "answer_question toy_env ''C d e.'' ''y''
         [EmbedCall [''A b.''], EmbedCall [''x''], GenerateCall ''question: x context: A b. A b. A b.'']
     = (Inr ''question: y context: C d e. C d e. C d e.'',
        [EmbedCall [''A b.''], EmbedCall [''x''], GenerateCall ''question: x context: A b. A b. A b.'',
         EmbedCall [''C d e.''], EmbedCall [''y''], GenerateCall ''question: y context: C d e. C d e. C d e.''])"
    by code_simp
  from answer_question_current_document [OF one two] one two show ?thesis
    by blast
qed

text \<open>
  C8.  The generator's prompt is \<open>"question: " + question + " context: " + context\<close>.
  When the tokenizer accepts the prompt and the model returns a batch of outputs, the
  answer is the first output decoded with \<open>skip_special_tokens=True\<close>, and the one call
  recorded is the generation call on that prompt; and an answer is only ever returned this
  way.
\<close>

theorem generate_answer_prompt:
  "(\<forall>inputs first others.
      tokenize tkz (''question: '' @ question @ '' context: '' @ context) = Inr inputs
      \<and> gen inputs = Inr (first # others)
      \<longrightarrow> generate_answer context question gen tkz log
            = (Inr (decode tkz first True),
               log @ [GenerateCall (''question: '' @ question @ '' context: '' @ context)]))
   \<and> (\<forall>answer log'.
      generate_answer context question gen tkz log = (Inr answer, log')
      \<longrightarrow> log' = log @ [GenerateCall (''question: '' @ question @ '' context: '' @ context)]
          \<and> (\<exists>inputs first others.
                tokenize tkz (''question: '' @ question @ '' context: '' @ context) = Inr inputs
                \<and> gen inputs = Inr (first # others)
                \<and> answer = decode tkz first True))"
proof (intro conjI allI impI)
  fix inputs first others
  assume "tokenize tkz (''question: '' @ question @ '' context: '' @ context) = Inr inputs
            \<and> gen inputs = Inr (first # others)"
  then show "generate_answer context question gen tkz log
            = (Inr (decode tkz first True),
               log @ [GenerateCall (''question: '' @ question @ '' context: '' @ context)])"
    by (simp add: generate_answer_def bnd_def lift_def ret_def emit_def getitem_zero)
next
  fix answer log'
  assume run: "generate_answer context question gen tkz log = (Inr answer, log')"
  then show "log' = log @ [GenerateCall (''question: '' @ question @ '' context: '' @ context)]"
    using generate_answer_log [of "context" question gen tkz] by auto
  from run obtain inputs outputs first
    where "tokenize tkz (''question: '' @ question @ '' context: '' @ context) = Inr inputs"
      and "gen inputs = Inr outputs" and first: "getitem outputs 0 = Inr first"
      and "answer = decode tkz first True"
    by (auto simp: generate_answer_def bnd_def lift_def ret_def emit_def Let_def
             split: sum.splits)
  moreover from first obtain others where "outputs = first # others"
    by (cases outputs) (auto simp: getitem_def)
  ultimately show "\<exists>inputs first others.
                tokenize tkz (''question: '' @ question @ '' context: '' @ context) = Inr inputs
                \<and> gen inputs = Inr (first # others)
                \<and> answer = decode tkz first True"
    by blast
qed

theorem generate_answer_prompt_witness:
  "tokenize toy_seq2seq_tokenizer ''question: What? context: The map.''
     = Inr [[113, 117, 101, 115, 116, 105, 111, 110, 58, 32, 87, 104, 97, 116, 63, 32,
             99, 111, 110, 116, 101, 120, 116, 58, 32, 84, 104, 101, 32, 109, 97, 112, 46]]
   \<and> generate_answer ''The map.'' ''What?'' toy_generate toy_seq2seq_tokenizer []
     = (Inr ''question: What? context: The map.'', [GenerateCall ''question: What? context: The map.''])"
proof -
  have "generate_answer ''The map.'' ''What?'' toy_generate toy_seq2seq_tokenizer []
     = (Inr ''question: What? context: The map.'', [GenerateCall ''question: What? context: The map.''])"
    by code_simp
  moreover have "tokenize toy_seq2seq_tokenizer ''question: What? context: The map.''
     = Inr [[113, 117, 101, 115, 116, 105, 111, 110, 58, 32, 87, 104, 97, 116, 63, 32,
             99, 111, 110, 116, 101, 120, 116, 58, 32, 84, 104, 101, 32, 109, 97, 112, 46]]"
    by code_simp
  ultimately show ?thesis
    using generate_answer_prompt [of toy_seq2seq_tokenizer "''What?''" "''The map.''" toy_generate "[]"]
    by blast
qed

end
